theory Spec2Isabelle
  imports
    Complex_Main
    "HOL-Library.Sublist"
    "HOL-Library.Multiset"
    "HOL-Library.Char_ord"
    "HOL-Library.List_Lexorder"
begin

section \<open>Python text\<close>

text \<open>
  A Python \<open>str\<close> is a sequence of code points. The texts of this development are the
  ones over the code points 0 to 255, one \<^typ>\<open>char\<close> each, so that \<open>len\<close> is
  \<^const>\<open>length\<close>. The header keyword \<open>'r\'eseau'\<close> and the display form
  \<open>'M\'etro'\<close> of \<open>app.py\<close> hold the code point 233.
\<close>

definition e_acute :: char where
  "e_acute = char_of (233 :: nat)"

definition isspace :: "char \<Rightarrow> bool" where
  \<comment> \<open>\<open>str.isspace\<close>: the characters that \<open>str.strip\<close> removes\<close>
  "isspace c =
     (let n = (of_char c :: nat)
      in (9 \<le> n \<and> n \<le> 13) \<or> (28 \<le> n \<and> n \<le> 32) \<or> n = 133 \<or> n = 160)"

definition lower_char :: "char \<Rightarrow> char" where
  "lower_char c =
     (let n = (of_char c :: nat)
      in if (65 \<le> n \<and> n \<le> 90) \<or> (192 \<le> n \<and> n \<le> 222 \<and> n \<noteq> 215)
         then char_of (n + 32) else c)"

definition lower :: "string \<Rightarrow> string" where
  "lower s = map lower_char s"

definition is_cased :: "char \<Rightarrow> bool" where
  "is_cased c =
     (let n = (of_char c :: nat)
      in (65 \<le> n \<and> n \<le> 90) \<or> (97 \<le> n \<and> n \<le> 122) \<or> n = 170 \<or> n = 181 \<or> n = 186
         \<or> (192 \<le> n \<and> n \<le> 214) \<or> (216 \<le> n \<and> n \<le> 246) \<or> (248 \<le> n \<and> n \<le> 255))"

definition title_char :: "char \<Rightarrow> char" where
  \<comment> \<open>The title-case images of the code points 181, 223 and 255 lie beyond 255, and the
      code points 170 and 186 are cased for Python's \<open>str.title\<close> only, not for the
      Arrow string kernel. This development leaves the first three unchanged, follows
      Python on the other two, and makes no statement that depends on any of the
      five.\<close>
  "title_char c =
     (let n = (of_char c :: nat)
      in if (97 \<le> n \<and> n \<le> 122) \<or> (224 \<le> n \<and> n \<le> 254 \<and> n \<noteq> 247)
         then char_of (n - 32) else c)"

fun title_from :: "bool \<Rightarrow> string \<Rightarrow> string" where
  \<comment> \<open>\<open>str.title\<close>: the flag says whether the previous character was cased\<close>
  "title_from previous_is_cased [] = []"
| "title_from previous_is_cased (c # cs) =
     (if previous_is_cased then lower_char c else title_char c) # title_from (is_cased c) cs"

definition title :: "string \<Rightarrow> string" where
  "title s = title_from False s"

definition strip :: "string \<Rightarrow> string" where
  "strip s = rev (dropWhile isspace (rev (dropWhile isspace s)))"

definition replace_char :: "char \<Rightarrow> char \<Rightarrow> string \<Rightarrow> string" where
  \<comment> \<open>\<open>s.replace(a, b)\<close> for one-character \<open>a\<close> and \<open>b\<close>\<close>
  "replace_char a b s = map (\<lambda>c. if c = a then b else c) s"

function str_replace :: "string \<Rightarrow> string \<Rightarrow> string \<Rightarrow> string" where
  \<comment> \<open>\<open>s.replace(old, new)\<close>: every occurrence, left to right, without overlap\<close>
  "str_replace [] new s = new @ concat (map (\<lambda>c. c # new) s)"
| "str_replace (k # ks) new [] = []"
| "str_replace (k # ks) new (c # cs) =
     (if prefix (k # ks) (c # cs)
      then new @ str_replace (k # ks) new (drop (length ks) cs)
      else c # str_replace (k # ks) new cs)"
  by pat_completeness auto
termination
  by (relation "measure (\<lambda>(old, new, s). length s)") auto

definition regex_space :: "char \<Rightarrow> bool" where
  \<comment> \<open>the characters that \<open>\s\<close> matches under each regex engine pandas runs (Python's
      \<open>re\<close> on \<open>object\<close> strings, RE2 on Arrow strings): tab, newline, form feed,
      carriage return and space\<close>
  "regex_space c =
     (let n = (of_char c :: nat) in n = 9 \<or> n = 10 \<or> n = 12 \<or> n = 13 \<or> n = 32)"

definition remove_ws :: "string \<Rightarrow> string" where
  \<comment> \<open>\<open>.str.replace(r'\s+', '', regex=True)\<close> on one text, as far as the engines agree.
      The code points 11, 28 to 31, 133 and 160 are removed by one engine only; they are
      left in place here, and a text that holds one is no integer literal, so
      \<open>to_numeric\<close> below hands it to its parameter.\<close>
  "remove_ws s = filter (\<lambda>c. \<not> regex_space c) s"

definition is_digit :: "char \<Rightarrow> bool" where
  "is_digit c = (let n = (of_char c :: nat) in 48 \<le> n \<and> n \<le> 57)"

definition digits_value :: "string \<Rightarrow> int" where
  "digits_value ds = foldl (\<lambda>a c. 10 * a + ((of_char c :: int) - 48)) 0 ds"

definition all_digits :: "string \<Rightarrow> bool" where
  "all_digits ds = (ds \<noteq> [] \<and> list_all is_digit ds)"

definition int_literal :: "string \<Rightarrow> int option" where
  \<comment> \<open>an optional sign followed by one or more decimal digits\<close>
  "int_literal s =
     (case s of
        [] \<Rightarrow> None
      | c # ds \<Rightarrow>
          if c = CHR ''-'' \<and> all_digits ds then Some (- digits_value ds)
          else if c = CHR ''+'' \<and> all_digits ds then Some (digits_value ds)
          else if all_digits (c # ds) then Some (digits_value (c # ds))
          else None)"

function str_digits :: "int \<Rightarrow> string" where
  \<comment> \<open>the decimal digits of a number that is not negative\<close>
  "str_digits n =
     (if n < 10 then [char_of (48 + n)]
      else str_digits (n div 10) @ [char_of (48 + n mod 10)])"
  by pat_completeness auto
termination
  by (relation "measure nat") auto

definition str_int :: "int \<Rightarrow> string" where
  \<comment> \<open>\<open>str(i)\<close>\<close>
  "str_int i = (if i < 0 then CHR ''-'' # str_digits (- i) else str_digits i)"

section \<open>Tables\<close>

text \<open>
  A pandas \<open>DataFrame\<close> is held column by column, as pandas holds it: the row labels
  (\<open>df.index\<close>) and the labelled columns in their order (\<open>df.items()\<close>); labels may
  repeat. A column is an \<open>int64\<close> array or an \<open>object\<close> array whose cells are Python
  strings or the missing value. \<open>float64\<close> columns, which \<open>read_csv\<close> builds for
  numbers with fractions or gaps, are not part of this development.
\<close>

datatype obj = NaN | Str string

datatype series = Int64 "int list" | Object "obj list"

record dataframe =
  index :: "nat list"
  items :: "(string \<times> series) list"

datatype error = AttributeError | CastError | ValueError

fun len :: "series \<Rightarrow> nat" where
  "len (Int64 xs) = length xs"
| "len (Object os) = length os"

definition columns :: "dataframe \<Rightarrow> string list" where
  "columns df = map fst (items df)"

definition DataFrame :: dataframe where
  \<comment> \<open>\<open>pd.DataFrame()\<close>\<close>
  "DataFrame = \<lparr>index = [], items = []\<rparr>"

definition aligned :: "dataframe \<Rightarrow> bool" where
  \<comment> \<open>every column has one cell per row label\<close>
  "aligned df = list_all (\<lambda>(c, s). len s = length (index df)) (items df)"

definition rename :: "(string \<rightharpoonup> string) \<Rightarrow> dataframe \<Rightarrow> dataframe" where
  \<comment> \<open>\<open>df.rename(columns=d)\<close>\<close>
  "rename d df =
     df\<lparr>items := map (\<lambda>(c, s). (case d c of None \<Rightarrow> c | Some k \<Rightarrow> k, s)) (items df)\<rparr>"

definition getitem :: "dataframe \<Rightarrow> string \<Rightarrow> error + series" where
  \<comment> \<open>\<open>df[key]\<close> for a label that is present, read as a Series: where several columns
      carry the label pandas returns a DataFrame, and the \<open>.str\<close> the caller applies to
      it raises AttributeError\<close>
  "getitem df key =
     (case filter (\<lambda>(c, s). c = key) (items df) of
        [(c, s)] \<Rightarrow> Inr s
      | _ \<Rightarrow> Inl AttributeError)"

definition setitem :: "dataframe \<Rightarrow> string \<Rightarrow> series \<Rightarrow> dataframe" where
  \<comment> \<open>\<open>df[key] = s\<close> for a label that is present once\<close>
  "setitem df key s = df\<lparr>items := map (\<lambda>(c, old). if c = key then (c, s) else (c, old)) (items df)\<rparr>"

fun astype_str :: "series \<Rightarrow> string list" where
  \<comment> \<open>\<open>.astype(str)\<close>: the missing value becomes the text \<open>'nan'\<close>\<close>
  "astype_str (Int64 xs) = map str_int xs"
| "astype_str (Object os) = map (\<lambda>v. case v of NaN \<Rightarrow> ''nan'' | Str s \<Rightarrow> s) os"

fun fillna :: "string \<Rightarrow> series \<Rightarrow> series" where
  "fillna d (Int64 xs) = Int64 xs"
| "fillna d (Object os) = Object (map (\<lambda>v. case v of NaN \<Rightarrow> Str d | Str s \<Rightarrow> Str s) os)"

fun str_apply :: "(string \<Rightarrow> string) \<Rightarrow> series \<Rightarrow> error + series" where
  \<comment> \<open>a method of the \<open>.str\<close> accessor: only \<open>object\<close> columns have the accessor, and
      a cell that is not a string gives the missing value\<close>
  "str_apply f (Int64 xs) = Inl AttributeError"
| "str_apply f (Object os) = Inr (Object (map (\<lambda>v. case v of NaN \<Rightarrow> NaN | Str s \<Rightarrow> Str (f s)) os))"

section \<open>\<open>load_data\<close>\<close>

text \<open>
  The file system and \<open>pd.read_csv\<close> are outside the program: the state of the file at
  \<open>FILE_PATH\<close> is one of three cases.
\<close>

datatype source =
    Absent              \<comment> \<open>\<open>os.path.exists\<close> is false\<close>
  | Unreadable          \<comment> \<open>\<open>pd.read_csv\<close> raises\<close>
  | Readable dataframe  \<comment> \<open>\<open>pd.read_csv\<close> returns this table\<close>

definition normalise_header :: "string \<Rightarrow> string" where
  \<comment> \<open>\<open>c.lower().strip().replace(' ', '_')\<close>\<close>
  "normalise_header c = replace_char CHR '' '' CHR ''_'' (strip (lower c))"

definition get_col :: "string list \<Rightarrow> string list \<Rightarrow> string option" where
  \<comment> \<open>the first header that contains one of the keys\<close>
  "get_col cols keys = find (\<lambda>c. list_ex (\<lambda>k. sublist k c) keys) cols"

definition rules :: "(string \<times> string list) list" where
  \<comment> \<open>the fields of \<open>mapping\<close> with their keywords, in the order of the dict literal\<close>
  "rules =
     [(''Reseau'', [''reseau'', ''r'' @ [e_acute] @ ''seau'']),
      (''Station'', [''station'', ''nom'']),
      (''Trafic'', [''trafic'', ''validations'']),
      (''Ville'', [''ville'', ''commune'']),
      (''Arr'', [''arrondissement''])]"

definition mapping :: "string list \<Rightarrow> (string \<times> string option) list" where
  "mapping cols = map (\<lambda>(k, keys). (k, get_col cols keys)) rules"

definition final_cols :: "string list \<Rightarrow> (string \<rightharpoonup> string)" where
  \<comment> \<open>\<open>{v: k for k, v in mapping.items() if v}\<close>: a later item overwrites an earlier
      one with the same key\<close>
  "final_cols cols =
     foldl (\<lambda>d (k, v). case v of None \<Rightarrow> d | Some h \<Rightarrow> if h = [] then d else d(h \<mapsto> k))
       Map.empty (mapping cols)"

text \<open>
  \<open>pd.to_numeric(errors='coerce')\<close>, \<open>fillna(0)\<close> and \<open>astype(int)\<close> on one
  text. A signed decimal literal of at most 15 characters denotes its value whatever
  number type the column takes: the integer reader and the \<open>float64\<close> reader, which
  keeps 17 digits, leading zeros counted, both read it exactly. Every other text (a
  longer literal, a fraction, an exponent, \<open>nan\<close>, an infinity, a text that holds a
  character only one regex engine removes, any other text) is left to the library,
  which is kept as the parameter \<open>float_path\<close> (it is given the whole column): the
  text reads as a number that casts to an integer, or it does not read and is coerced
  to the missing value, or the cast raises (as it does on an infinity).
\<close>

datatype parsed = Finite int | Coerced | Raises

definition to_numeric :: "(string list \<Rightarrow> string \<Rightarrow> parsed) \<Rightarrow> string list \<Rightarrow> string \<Rightarrow> parsed" where
  "to_numeric float_path col s =
     (case int_literal s of
        None \<Rightarrow> float_path col s
      | Some v \<Rightarrow> if length s \<le> 15 then Finite v else float_path col s)"

definition fillna0_int :: "parsed \<Rightarrow> int" where
  "fillna0_int p = (case p of Finite v \<Rightarrow> v | _ \<Rightarrow> 0)"

definition clean_trafic :: "(string list \<Rightarrow> string \<Rightarrow> parsed) \<Rightarrow> dataframe \<Rightarrow> error + dataframe" where
  \<comment> \<open>lines 60 to 62\<close>
  "clean_trafic float_path df =
     (if ''Trafic'' \<in> set (columns df) then
        (case getitem df ''Trafic'' of
           Inl e \<Rightarrow> Inl e
         | Inr s \<Rightarrow>
             let texts = map remove_ws (astype_str s);
                 cells = map (to_numeric float_path texts) texts
             in if Raises \<in> set cells then Inl CastError
                else Inr (setitem df ''Trafic'' (Int64 (map fillna0_int cells))))
      else Inr df)"

definition clean_ville :: "dataframe \<Rightarrow> error + dataframe" where
  \<comment> \<open>lines 65 and 66\<close>
  "clean_ville df =
     (if ''Ville'' \<in> set (columns df) then
        (case getitem df ''Ville'' of
           Inl e \<Rightarrow> Inl e
         | Inr s \<Rightarrow>
             (case str_apply title (fillna ''Inconnue'' s) of
                Inl e \<Rightarrow> Inl e
              | Inr s' \<Rightarrow> Inr (setitem df ''Ville'' s')))
      else Inr df)"

definition clean_reseau :: "dataframe \<Rightarrow> error + dataframe" where
  \<comment> \<open>lines 68 and 69\<close>
  "clean_reseau df =
     (if ''Reseau'' \<in> set (columns df) then
        (case getitem df ''Reseau'' of
           Inl e \<Rightarrow> Inl e
         | Inr s \<Rightarrow>
             (case str_apply (str_replace ''Metro'' (''M'' @ [e_acute] @ ''tro''))
                     (fillna ''Autre'' s) of
                Inl e \<Rightarrow> Inl e
              | Inr s' \<Rightarrow> Inr (setitem df ''Reseau'' s')))
      else Inr df)"

definition normalise_columns :: "dataframe \<Rightarrow> dataframe" where
  \<comment> \<open>line 39\<close>
  "normalise_columns df = df\<lparr>items := map (\<lambda>(c, s). (normalise_header c, s)) (items df)\<rparr>"

definition clean_fields :: "(string list \<Rightarrow> string \<Rightarrow> parsed) \<Rightarrow> dataframe \<Rightarrow> error + dataframe" where
  \<comment> \<open>lines 59 to 69: \<open>Trafic\<close>, then \<open>Ville\<close>, then \<open>Reseau\<close>\<close>
  "clean_fields float_path df =
     (case clean_trafic float_path df of
        Inl e \<Rightarrow> Inl e
      | Inr df \<Rightarrow>
          (case clean_ville df of
             Inl e \<Rightarrow> Inl e
           | Inr df \<Rightarrow> clean_reseau df))"

definition load_data :: "(string list \<Rightarrow> string \<Rightarrow> parsed) \<Rightarrow> source \<Rightarrow> error + dataframe" where
  "load_data float_path src =
     (case src of
        Absent \<Rightarrow> Inr DataFrame
      | Unreadable \<Rightarrow> Inr DataFrame
      | Readable raw \<Rightarrow>
          let df = normalise_columns raw;
              df = rename (final_cols (columns df)) df
          in clean_fields float_path df)"

definition renamed :: "dataframe \<Rightarrow> dataframe" where
  \<comment> \<open>the table of \<open>load_data\<close> after line 57: headers normalised, then renamed\<close>
  "renamed raw = rename (final_cols (columns (normalise_columns raw))) (normalise_columns raw)"

definition no_float_path :: "string list \<Rightarrow> string \<Rightarrow> parsed" where
  \<comment> \<open>an instance of the parameter for runs on short integer literals, which never
      reach it, and on the text \<open>nan\<close>, which pandas coerces\<close>
  "no_float_path col s = Coerced"

section \<open>The filtered view\<close>

text \<open>
  \<open>main\<close> and the plotting functions read the columns \<open>Reseau\<close>, \<open>Ville\<close>,
  \<open>Station\<close> and \<open>Trafic\<close> of the loaded table row by row; here a table is the list
  of its rows, each with its index label. After \<open>load_data\<close> the cells of \<open>Reseau\<close>
  and \<open>Ville\<close> are strings and those of \<open>Trafic\<close> are integers (lemma
  \<open>clean_fields_strings\<close> and the theorem on \<open>Trafic\<close> below, for the \<open>int64\<close> and
  \<open>object\<close> columns of this development), which is what the fields of a row hold.
\<close>

record row =
  label :: nat
  Reseau :: string
  Station :: obj
  Trafic :: int
  Ville :: string

definition filter_stage :: "string list \<Rightarrow> string list \<Rightarrow> row list \<Rightarrow> row list" where
  \<comment> \<open>lines 165 to 167\<close>
  "filter_stage sel_res sel_city df =
     (let df_viz = filter (\<lambda>r. Reseau r \<in> set sel_res) df
      in if sel_city \<noteq> [] then filter (\<lambda>r. Ville r \<in> set sel_city) df_viz else df_viz)"

subsection \<open>Sorting by \<open>Trafic\<close>\<close>

text \<open>
  \<open>sort_values('Trafic', ascending=False)\<close> runs the library's default sort, which is
  not stable: the result is the rows in descending order of \<open>Trafic\<close>, and the order
  among equal values is the library's. The sort is a parameter under this contract.
  \<open>stable_descending\<close> is the instance that keeps equal values in their input order.
\<close>

definition sorts_descending :: "(row list \<Rightarrow> row list) \<Rightarrow> bool" where
  "sorts_descending sort_values =
     (\<forall>df. mset (sort_values df) = mset df
        \<and> sorted_wrt (\<lambda>a b. Trafic b \<le> Trafic a) (sort_values df))"

definition stable_descending :: "row list \<Rightarrow> row list" where
  "stable_descending df = sort_key (\<lambda>r. - Trafic r) df"

definition top_df :: "(row list \<Rightarrow> row list) \<Rightarrow> row list \<Rightarrow> row list" where
  \<comment> \<open>\<open>plot_sunburst\<close>: \<open>df.sort_values('Trafic', ascending=False).head(100)\<close>\<close>
  "top_df sort_values df = take 100 (sort_values df)"

definition nlargest :: "(row list \<Rightarrow> row list) \<Rightarrow> nat \<Rightarrow> row list \<Rightarrow> row list" where
  \<comment> \<open>\<open>df.nlargest(n, 'Trafic')\<close> with \<open>keep='first'\<close>: when \<open>n\<close> covers the table it
      is \<open>sort_values(ascending=False).head(n)\<close>; otherwise equal values are taken in
      input order\<close>
  "nlargest sort_values n df =
     (if n = 0 then []
      else if length df \<le> n then take n (sort_values df)
      else take n (stable_descending df))"

definition top_rows :: "(row list \<Rightarrow> row list) \<Rightarrow> row list \<Rightarrow> row list" where
  \<comment> \<open>\<open>top\<close> of \<open>plot_top_bar\<close>: \<open>df.nlargest(15, 'Trafic')\<close>\<close>
  "top_rows sort_values df = nlargest sort_values 15 df"

subsection \<open>Sums\<close>

definition wrap64 :: "int \<Rightarrow> int" where
  \<comment> \<open>the \<open>int64\<close> that an integer wraps to\<close>
  "wrap64 i = (i + 2 ^ 63) mod 2 ^ 64 - 2 ^ 63"

definition sum64 :: "int list \<Rightarrow> int" where
  \<comment> \<open>\<open>.sum()\<close> of an \<open>int64\<close> column: every addition wraps\<close>
  "sum64 xs = foldl (\<lambda>a x. wrap64 (a + x)) 0 xs"

definition grp :: "row list \<Rightarrow> (string \<times> int) list" where
  \<comment> \<open>\<open>plot_donut\<close>: \<open>df.groupby('Reseau')['Trafic'].sum().reset_index()\<close>, one row
      per key, keys in ascending order\<close>
  "grp df =
     map (\<lambda>k. (k, sum64 (map Trafic (filter (\<lambda>r. Reseau r = k) df))))
       (sort (remdups (map Reseau df)))"

subsection \<open>The scalar summaries of \<open>main\<close>\<close>

datatype 'a selection = One 'a | Several "'a list"

definition idxmax :: "row list \<Rightarrow> error + nat" where
  \<comment> \<open>\<open>df['Trafic'].idxmax()\<close>: the label of the first row that holds the maximum;
      ValueError on an empty column\<close>
  "idxmax df =
     (case df of
        [] \<Rightarrow> Inl ValueError
      | r # rs \<Rightarrow> Inr (label (foldl (\<lambda>best x. if Trafic best < Trafic x then x else best) r rs)))"

definition loc :: "row list \<Rightarrow> nat \<Rightarrow> row selection" where
  \<comment> \<open>\<open>df.loc[l]\<close> for a label that is present: the row, or the rows that share it\<close>
  "loc df l = (case filter (\<lambda>r. label r = l) df of [r] \<Rightarrow> One r | rs \<Rightarrow> Several rs)"

fun map_selection :: "('a \<Rightarrow> 'b) \<Rightarrow> 'a selection \<Rightarrow> 'b selection" where
  "map_selection f (One x) = One (f x)"
| "map_selection f (Several xs) = Several (map f xs)"

definition top_station :: "row list \<Rightarrow> error + obj selection" where
  \<comment> \<open>lines 177 and 178: the value handed to the \<open>Top Station\<close> metric\<close>
  "top_station df_viz =
     (if df_viz \<noteq> [] then
        (case idxmax df_viz of
           Inl e \<Rightarrow> Inl e
         | Inr l \<Rightarrow> Inr (map_selection Station (loc df_viz l)))
      else Inr (One (Str ''-'')))"

definition mean :: "int list \<Rightarrow> rat option" where
  \<comment> \<open>\<open>.mean()\<close>: the missing value on an empty column; otherwise the quotient, which
      pandas rounds to a \<open>float64\<close>\<close>
  "mean xs = (if xs = [] then None else Some (of_int (sum_list xs) / of_nat (length xs)))"

record kpis =
  k1_total :: int
  k2_stations :: nat
  k3_top_s :: "obj selection"
  k4_avg :: "rat option"

definition summaries :: "row list \<Rightarrow> error + kpis" where
  \<comment> \<open>lines 172 to 181, before formatting\<close>
  "summaries df_viz =
     (case top_station df_viz of
        Inl e \<Rightarrow> Inl e
      | Inr t \<Rightarrow>
          Inr \<lparr>k1_total = sum64 (map Trafic df_viz), k2_stations = length df_viz,
               k3_top_s = t, k4_avg = mean (map Trafic df_viz)\<rparr>)"

section \<open>The loader on a missing or unreadable file, and on the reference row\<close>

text \<open>
  Claim C4. When the file at \<open>FILE_PATH\<close> does not exist, or \<open>pd.read_csv\<close> raises on
  it, \<open>load_data\<close> returns \<open>pd.DataFrame()\<close>, the table with no row and no column, and
  raises nothing.
\<close>

theorem load_data_no_source:
  "load_data float_path Absent = Inr DataFrame
   \<and> load_data float_path Unreadable = Inr DataFrame
   \<and> index DataFrame = [] \<and> columns DataFrame = []"
  by (simp add: load_data_def DataFrame_def columns_def)

text \<open>
  Claim C3. The one-row file with the headers \<open>R\'eseau\<close>, \<open>Station\<close>,
  \<open>Trafic (Validations)\<close>, \<open>Ville\<close> and the cells \<open>Metro\<close>, \<open>Nation\<close>,
  \<open>1 200 000\<close>, \<open>paris\<close> loads as the row \<open>M\'etro\<close>, \<open>Nation\<close>, \<open>1200000\<close>,
  \<open>Paris\<close> under the labels \<open>Reseau\<close>, \<open>Station\<close>, \<open>Trafic\<close>, \<open>Ville\<close>.
\<close>

theorem load_data_scenario:
  "load_data float_path
     (Readable \<lparr>index = [0],
        items = [(''R'' @ [e_acute] @ ''seau'', Object [Str ''Metro'']),
                 (''Station'', Object [Str ''Nation'']),
                 (''Trafic (Validations)'', Object [Str ''1 200 000'']),
                 (''Ville'', Object [Str ''paris''])]\<rparr>)
   = Inr \<lparr>index = [0],
        items = [(''Reseau'', Object [Str (''M'' @ [e_acute] @ ''tro'')]),
                 (''Station'', Object [Str ''Nation'']),
                 (''Trafic'', Int64 [1200000]),
                 (''Ville'', Object [Str ''Paris''])]\<rparr>"
  by code_simp

section \<open>The schema mapper\<close>

lemma get_col_contains:
  "get_col cols keys = Some c \<Longrightarrow> \<exists>k \<in> set keys. sublist k c"
  by (auto simp: get_col_def find_Some_iff list_ex_iff)

lemma get_col_nonempty:
  assumes "get_col cols keys = Some c" and "[] \<notin> set keys"
  shows "c \<noteq> []"
proof
  assume "c = []"
  with get_col_contains [OF assms(1)] obtain k where "k \<in> set keys" "sublist k []"
    by blast
  then have "k = []" by simp
  with \<open>k \<in> set keys\<close> assms(2) show False by simp
qed

lemma rules_keys_nonempty: "(k, keys) \<in> set rules \<Longrightarrow> [] \<notin> set keys"
  by (auto simp: rules_def)

lemma last_field_snoc:
  "(case fs @ [x] of [] \<Rightarrow> a | y # ys \<Rightarrow> Some (fst (last (y # ys)))) = Some (fst x)"
  by (cases fs) simp_all

lemma invert_last:
  assumes "\<forall>(k, keys) \<in> set rs. [] \<notin> set keys"
  shows "foldl (\<lambda>d (k, v). case v of None \<Rightarrow> d | Some h \<Rightarrow> if h = [] then d else d(h \<mapsto> k))
           d (map (\<lambda>(k, keys). (k, get_col cols keys)) rs) h
       = (case filter (\<lambda>(k, keys). get_col cols keys = Some h) rs of
            [] \<Rightarrow> d h
          | fs \<Rightarrow> Some (fst (last fs)))"
  using assms
proof (induction rs rule: rev_induct)
  case Nil
  then show ?case by simp
next
  case (snoc x rs)
  obtain k keys where x: "x = (k, keys)" by (cases x)
  from snoc.prems have keys: "[] \<notin> set keys" and rest: "\<forall>(k, keys) \<in> set rs. [] \<notin> set keys"
    by (auto simp: x)
  note IH = snoc.IH [OF rest]
  show ?case
  proof (cases "get_col cols keys")
    case None
    then show ?thesis using IH by (simp add: x)
  next
    case (Some h')
    then have ne: "h' \<noteq> []" using keys by (rule get_col_nonempty)
    show ?thesis
    proof (cases "h' = h")
      case True
      then show ?thesis using Some ne by (simp add: x last_field_snoc)
    next
      case False
      then show ?thesis using Some ne IH by (simp add: x)
    qed
  qed
qed

text \<open>
  Claim C2, as the code has it. The dict \<open>final_cols\<close> gives a header at most one
  field, and the field it gives to a header is the last one, in the order \<open>Reseau\<close>,
  \<open>Station\<close>, \<open>Trafic\<close>, \<open>Ville\<close>, \<open>Arr\<close>, among the fields whose \<open>get_col\<close>
  selected that header; a header no field selected is not renamed.
\<close>

theorem final_cols_last_field:
  "final_cols cols h
     = (case filter (\<lambda>(k, keys). get_col cols keys = Some h) rules of
          [] \<Rightarrow> None
        | fs \<Rightarrow> Some (fst (last fs)))"
proof -
  have "\<forall>(k, keys) \<in> set rules. [] \<notin> set keys"
    using rules_keys_nonempty by blast
  from invert_last [OF this, of Map.empty cols h] show ?thesis
    by (simp add: final_cols_def mapping_def)
qed

text \<open>
  Claim C2, as stated, fails. On the single header \<open>nom_reseau\<close> both \<open>Reseau\<close> and
  \<open>Station\<close> select the header, and it is the later field, \<open>Station\<close>, that keeps it:
  the loaded table has a \<open>Station\<close> column and no \<open>Reseau\<close> column.
\<close>

theorem first_field_counterexample:
  "mapping [''nom_reseau'']
     = [(''Reseau'', Some ''nom_reseau''), (''Station'', Some ''nom_reseau''),
        (''Trafic'', None), (''Ville'', None), (''Arr'', None)]
   \<and> final_cols [''nom_reseau''] ''nom_reseau'' = Some ''Station''
   \<and> final_cols [''nom_reseau''] ''nom_reseau'' \<noteq> Some ''Reseau''
   \<and> load_data no_float_path
        (Readable \<lparr>index = [0], items = [(''Nom Reseau'', Object [Str ''Metro''])]\<rparr>)
      = Inr \<lparr>index = [0], items = [(''Station'', Object [Str ''Metro''])]\<rparr>"
  by code_simp

section \<open>The cleaning of the fields\<close>

lemma filter_setitem:
  "filter (\<lambda>(c, s). c = key) (map (\<lambda>(c, old). if c = k then (c, s') else (c, old)) xs)
     = (if key = k then map (\<lambda>(c, old). (c, s')) (filter (\<lambda>(c, s). c = key) xs)
        else filter (\<lambda>(c, s). c = key) xs)"
  by (induction xs) auto

lemma getitem_singleton:
  "getitem df key = Inr s \<longleftrightarrow> filter (\<lambda>(c, s). c = key) (items df) = [(key, s)]"
proof
  assume "getitem df key = Inr s"
  then obtain c where f: "filter (\<lambda>(c, s). c = key) (items df) = [(c, s)]"
    by (auto simp: getitem_def split: list.splits prod.splits)
  then have "(c, s) \<in> set (filter (\<lambda>(c, s). c = key) (items df))" by simp
  then have "c = key" by auto
  with f show "filter (\<lambda>(c, s). c = key) (items df) = [(key, s)]" by simp
next
  assume "filter (\<lambda>(c, s). c = key) (items df) = [(key, s)]"
  then show "getitem df key = Inr s" by (simp add: getitem_def)
qed

lemma getitem_setitem_same:
  "getitem df key = Inr s \<Longrightarrow> getitem (setitem df key s') key = Inr s'"
  by (simp add: getitem_singleton setitem_def filter_setitem)

lemma getitem_setitem_other:
  "key \<noteq> k \<Longrightarrow> getitem (setitem df k s') key = getitem df key"
  by (simp add: getitem_def setitem_def filter_setitem)

lemma getitem_member: "getitem df key = Inr s \<Longrightarrow> (key, s) \<in> set (items df)"
proof -
  assume "getitem df key = Inr s"
  then have "filter (\<lambda>(c, s). c = key) (items df) = [(key, s)]"
    by (simp add: getitem_singleton)
  then have "(key, s) \<in> set (filter (\<lambda>(c, s). c = key) (items df))" by simp
  then show ?thesis by simp
qed

lemma index_setitem: "index (setitem df k s) = index df"
  by (simp add: setitem_def)

lemma length_items_setitem: "length (items (setitem df k s)) = length (items df)"
  by (simp add: setitem_def)

lemma aligned_setitem:
  "aligned df \<Longrightarrow> len s = length (index df) \<Longrightarrow> aligned (setitem df k s)"
  by (auto simp: aligned_def setitem_def list_all_iff split: if_splits)

lemma aligned_len:
  "aligned df \<Longrightarrow> getitem df key = Inr s \<Longrightarrow> len s = length (index df)"
  using getitem_member [of df key s] by (auto simp: aligned_def list_all_iff)

lemma len_fillna: "len (fillna d s) = len s"
  by (cases s) simp_all

lemma len_str_apply: "str_apply f s = Inr s' \<Longrightarrow> len s' = len s"
  by (cases s) auto

lemma length_astype_str: "length (astype_str s) = len s"
  by (cases s) simp_all

text \<open>What each cleaning step returns.\<close>

lemma clean_trafic_absent:
  "''Trafic'' \<notin> set (columns df) \<Longrightarrow> clean_trafic float_path df = Inr df"
  by (simp add: clean_trafic_def)

lemma clean_trafic_present:
  assumes "clean_trafic float_path df = Inr df'" and "''Trafic'' \<in> set (columns df)"
  shows "\<exists>s. getitem df ''Trafic'' = Inr s
     \<and> df' = setitem df ''Trafic''
          (Int64 (map fillna0_int
             (map (to_numeric float_path (map remove_ws (astype_str s)))
                (map remove_ws (astype_str s)))))"
proof (cases "getitem df ''Trafic''")
  case (Inl e)
  with assms show ?thesis
    unfolding clean_trafic_def by simp
next
  case (Inr s)
  with assms show ?thesis
    unfolding clean_trafic_def Let_def by (simp del: map_map split: if_splits)
qed

lemma clean_ville_result:
  assumes "clean_ville df = Inr df'"
  shows "df' = df
    \<or> (\<exists>s s'. getitem df ''Ville'' = Inr s
          \<and> str_apply title (fillna ''Inconnue'' s) = Inr s' \<and> df' = setitem df ''Ville'' s')"
proof (cases "''Ville'' \<in> set (columns df)")
  case False
  with assms show ?thesis
    unfolding clean_ville_def by simp
next
  case True
  show ?thesis
  proof (cases "getitem df ''Ville''")
    case (Inl e)
    with assms True show ?thesis
      unfolding clean_ville_def by simp
  next
    case (Inr s)
    with assms True show ?thesis
      unfolding clean_ville_def
      by (cases "str_apply title (fillna ''Inconnue'' s)") simp_all
  qed
qed

lemma clean_reseau_result:
  assumes "clean_reseau df = Inr df'"
  shows "df' = df
    \<or> (\<exists>s s'. getitem df ''Reseau'' = Inr s
          \<and> str_apply (str_replace ''Metro'' (''M'' @ [e_acute] @ ''tro'')) (fillna ''Autre'' s)
              = Inr s'
          \<and> df' = setitem df ''Reseau'' s')"
proof (cases "''Reseau'' \<in> set (columns df)")
  case False
  with assms show ?thesis
    unfolding clean_reseau_def by simp
next
  case True
  show ?thesis
  proof (cases "getitem df ''Reseau''")
    case (Inl e)
    with assms True show ?thesis
      unfolding clean_reseau_def by simp
  next
    case (Inr s)
    with assms True show ?thesis
      unfolding clean_reseau_def
      by (cases "str_apply (str_replace ''Metro'' (''M'' @ [e_acute] @ ''tro'')) (fillna ''Autre'' s)")
        simp_all
  qed
qed

lemma clean_fields_steps:
  assumes "clean_fields float_path df = Inr df'"
  shows "\<exists>df1 df2. clean_trafic float_path df = Inr df1 \<and> clean_ville df1 = Inr df2
    \<and> clean_reseau df2 = Inr df'"
proof (cases "clean_trafic float_path df")
  case (Inl e)
  with assms show ?thesis
    unfolding clean_fields_def by simp
next
  case (Inr df1)
  note t = this
  show ?thesis
  proof (cases "clean_ville df1")
    case (Inl e)
    with assms t show ?thesis
      unfolding clean_fields_def by simp
  next
    case (Inr df2)
    with assms t show ?thesis
      unfolding clean_fields_def by simp
  qed
qed

lemma clean_ville_keeps:
  "clean_ville df = Inr df' \<Longrightarrow> key \<noteq> ''Ville'' \<Longrightarrow> getitem df' key = getitem df key"
  using clean_ville_result [of df df'] by (auto simp: getitem_setitem_other)

lemma clean_reseau_keeps:
  "clean_reseau df = Inr df' \<Longrightarrow> key \<noteq> ''Reseau'' \<Longrightarrow> getitem df' key = getitem df key"
  using clean_reseau_result [of df df'] by (auto simp: getitem_setitem_other)

text \<open>
  Claim C1, as the code has it. After the cleaning has run on a table with a \<open>Trafic\<close>
  column, that column is an \<open>int64\<close> column with one integer for each cell of the
  column it replaces: no cell is missing and none holds whitespace. Nothing makes the
  integers non-negative.
\<close>

theorem clean_fields_trafic:
  assumes run: "clean_fields float_path df = Inr df'"
    and present: "''Trafic'' \<in> set (columns df)"
  shows "\<exists>s xs. getitem df ''Trafic'' = Inr s \<and> getitem df' ''Trafic'' = Inr (Int64 xs)
     \<and> length xs = len s"
proof -
  from clean_fields_steps [OF run] obtain df1 df2
    where t: "clean_trafic float_path df = Inr df1"
      and v: "clean_ville df1 = Inr df2" and r: "clean_reseau df2 = Inr df'"
    by blast
  define texts where "texts s = map remove_ws (astype_str s)" for s
  define xs where "xs s = map fillna0_int (map (to_numeric float_path (texts s)) (texts s))" for s
  from clean_trafic_present [OF t present] obtain s
    where s: "getitem df ''Trafic'' = Inr s" and df1: "df1 = setitem df ''Trafic'' (Int64 (xs s))"
    by (auto simp: xs_def texts_def)
  have "getitem df1 ''Trafic'' = Inr (Int64 (xs s))"
    unfolding df1 using s by (rule getitem_setitem_same)
  then have "getitem df2 ''Trafic'' = Inr (Int64 (xs s))"
    using clean_ville_keeps [OF v, of "''Trafic''"] by simp
  then have out: "getitem df' ''Trafic'' = Inr (Int64 (xs s))"
    using clean_reseau_keeps [OF r, of "''Trafic''"] by simp
  have len: "length (xs s) = len s"
    by (simp add: xs_def texts_def length_astype_str)
  from s out len show ?thesis by blast
qed

theorem clean_fields_trafic_witness:
  "clean_fields no_float_path
      \<lparr>index = [0, 1], items = [(''Trafic'', Object [Str ''1 200'', NaN])]\<rparr>
     = Inr \<lparr>index = [0, 1], items = [(''Trafic'', Int64 [1200, 0])]\<rparr>
   \<and> ''Trafic'' \<in> set (columns \<lparr>index = [0, 1], items = [(''Trafic'', Object [Str ''1 200'', NaN])]\<rparr>)
   \<and> (\<exists>xs. getitem \<lparr>index = [0, 1], items = [(''Trafic'', Int64 [1200, 0])]\<rparr> ''Trafic''
          = Inr (Int64 xs))"
proof -
  have run: "clean_fields no_float_path
      \<lparr>index = [0, 1], items = [(''Trafic'', Object [Str ''1 200'', NaN])]\<rparr>
     = Inr \<lparr>index = [0, 1], items = [(''Trafic'', Int64 [1200, 0])]\<rparr>"
    by code_simp
  have present:
    "''Trafic'' \<in> set (columns \<lparr>index = [0, 1], items = [(''Trafic'', Object [Str ''1 200'', NaN])]\<rparr>)"
    by code_simp
  from clean_fields_trafic [OF run present] run present show ?thesis
    by blast
qed

text \<open>
  Claim C1, as stated, fails. The cell \<open>-1 200\<close> is cleaned to the integer \<open>-1200\<close>,
  which is negative.
\<close>

theorem trafic_negative_counterexample:
  "clean_fields no_float_path \<lparr>index = [0], items = [(''Trafic'', Object [Str ''-1 200''])]\<rparr>
     = Inr \<lparr>index = [0], items = [(''Trafic'', Int64 [- 1200])]\<rparr>
   \<and> load_data no_float_path
        (Readable \<lparr>index = [0], items = [(''Trafic'', Object [Str ''-1 200''])]\<rparr>)
     = Inr \<lparr>index = [0], items = [(''Trafic'', Int64 [- 1200])]\<rparr>
   \<and> \<not> (0 :: int) \<le> - 1200"
  by code_simp

subsection \<open>The number of rows\<close>

lemma normalise_columns_keeps:
  "index (normalise_columns df) = index df
   \<and> length (items (normalise_columns df)) = length (items df)
   \<and> (aligned df \<longrightarrow> aligned (normalise_columns df))"
  by (auto simp: normalise_columns_def aligned_def list_all_iff)

lemma rename_keeps:
  "index (rename d df) = index df
   \<and> length (items (rename d df)) = length (items df)
   \<and> (aligned df \<longrightarrow> aligned (rename d df))"
  by (auto simp: rename_def aligned_def list_all_iff)

lemma clean_trafic_rows:
  assumes "clean_trafic float_path df = Inr df'"
  shows "index df' = index df \<and> length (items df') = length (items df)
    \<and> (aligned df \<longrightarrow> aligned df')"
proof (cases "''Trafic'' \<in> set (columns df)")
  case False
  with assms show ?thesis by (simp add: clean_trafic_absent)
next
  case True
  from clean_trafic_present [OF assms True] obtain s xs
    where s: "getitem df ''Trafic'' = Inr s" and df': "df' = setitem df ''Trafic'' (Int64 xs)"
      and xs: "length xs = len s"
    by (auto simp: length_astype_str)
  show ?thesis
    unfolding df' using aligned_len [OF _ s] xs
    by (simp add: index_setitem length_items_setitem aligned_setitem)
qed

lemma clean_ville_rows:
  assumes "clean_ville df = Inr df'"
  shows "index df' = index df \<and> length (items df') = length (items df)
    \<and> (aligned df \<longrightarrow> aligned df')"
  using clean_ville_result [OF assms]
proof
  assume "df' = df"
  then show ?thesis by simp
next
  assume "\<exists>s s'. getitem df ''Ville'' = Inr s
    \<and> str_apply title (fillna ''Inconnue'' s) = Inr s' \<and> df' = setitem df ''Ville'' s'"
  then obtain s s' where s: "getitem df ''Ville'' = Inr s"
    and s': "str_apply title (fillna ''Inconnue'' s) = Inr s'" and df': "df' = setitem df ''Ville'' s'"
    by blast
  have "len s' = len s"
    using len_str_apply [OF s'] by (simp add: len_fillna)
  then show ?thesis
    unfolding df' using aligned_len [OF _ s]
    by (simp add: index_setitem length_items_setitem aligned_setitem)
qed

lemma clean_reseau_rows:
  assumes "clean_reseau df = Inr df'"
  shows "index df' = index df \<and> length (items df') = length (items df)
    \<and> (aligned df \<longrightarrow> aligned df')"
  using clean_reseau_result [OF assms]
proof
  assume "df' = df"
  then show ?thesis by simp
next
  assume "\<exists>s s'. getitem df ''Reseau'' = Inr s
    \<and> str_apply (str_replace ''Metro'' (''M'' @ [e_acute] @ ''tro'')) (fillna ''Autre'' s) = Inr s'
    \<and> df' = setitem df ''Reseau'' s'"
  then obtain s s' where s: "getitem df ''Reseau'' = Inr s"
    and s': "str_apply (str_replace ''Metro'' (''M'' @ [e_acute] @ ''tro'')) (fillna ''Autre'' s) = Inr s'"
    and df': "df' = setitem df ''Reseau'' s'"
    by blast
  have "len s' = len s"
    using len_str_apply [OF s'] by (simp add: len_fillna)
  then show ?thesis
    unfolding df' using aligned_len [OF _ s]
    by (simp add: index_setitem length_items_setitem aligned_setitem)
qed

text \<open>
  Claim C9. The table that \<open>load_data\<close> returns for a readable file has the row labels
  of the table \<open>read_csv\<close> returned, hence as many rows, and as many columns; when
  every column of the raw table has one cell for each row, so has every column of the
  returned table.
\<close>

theorem load_data_row_count:
  assumes "load_data float_path (Readable raw) = Inr df"
  shows "length (index df) = length (index raw)
    \<and> index df = index raw
    \<and> length (items df) = length (items raw)
    \<and> (aligned raw \<longrightarrow> aligned df)"
proof -
  define df0 where "df0 = rename (final_cols (columns (normalise_columns raw))) (normalise_columns raw)"
  have run: "clean_fields float_path df0 = Inr df"
    using assms by (simp add: load_data_def Let_def df0_def)
  from clean_fields_steps [OF run] obtain df1 df2
    where t: "clean_trafic float_path df0 = Inr df1"
      and v: "clean_ville df1 = Inr df2" and r: "clean_reseau df2 = Inr df"
    by blast
  have 0: "index df0 = index raw \<and> length (items df0) = length (items raw)
      \<and> (aligned raw \<longrightarrow> aligned df0)"
    unfolding df0_def using normalise_columns_keeps [of raw]
      rename_keeps [of "final_cols (columns (normalise_columns raw))" "normalise_columns raw"]
    by simp
  from 0 clean_trafic_rows [OF t] clean_ville_rows [OF v] clean_reseau_rows [OF r]
  show ?thesis by simp
qed

theorem load_data_row_count_witness:
  "load_data no_float_path
     (Readable \<lparr>index = [0, 1],
        items = [(''Station'', Object [Str ''Nation'', Str ''La Defense'']),
                 (''Trafic'', Int64 [1200000, 52]),
                 (''Commune'', Object [Str ''paris'', NaN])]\<rparr>)
   = Inr \<lparr>index = [0, 1],
        items = [(''Station'', Object [Str ''Nation'', Str ''La Defense'']),
                 (''Trafic'', Int64 [1200000, 52]),
                 (''Ville'', Object [Str ''Paris'', Str ''Inconnue''])]\<rparr>
   \<and> aligned \<lparr>index = [0, 1],
        items = [(''Station'', Object [Str ''Nation'', Str ''La Defense'']),
                 (''Trafic'', Int64 [1200000, 52]),
                 (''Commune'', Object [Str ''paris'', NaN])]\<rparr>
   \<and> aligned \<lparr>index = [0, 1],
        items = [(''Station'', Object [Str ''Nation'', Str ''La Defense'']),
                 (''Trafic'', Int64 [1200000, 52]),
                 (''Ville'', Object [Str ''Paris'', Str ''Inconnue''])]\<rparr>
   \<and> length (index \<lparr>index = [0, 1],
        items = [(''Station'', Object [Str ''Nation'', Str ''La Defense'']),
                 (''Trafic'', Int64 [1200000, 52]),
                 (''Ville'', Object [Str ''Paris'', Str ''Inconnue''])]\<rparr>) = 2"
proof -
  have run: "load_data no_float_path
     (Readable \<lparr>index = [0, 1],
        items = [(''Station'', Object [Str ''Nation'', Str ''La Defense'']),
                 (''Trafic'', Int64 [1200000, 52]),
                 (''Commune'', Object [Str ''paris'', NaN])]\<rparr>)
   = Inr \<lparr>index = [0, 1],
        items = [(''Station'', Object [Str ''Nation'', Str ''La Defense'']),
                 (''Trafic'', Int64 [1200000, 52]),
                 (''Ville'', Object [Str ''Paris'', Str ''Inconnue''])]\<rparr>"
    by code_simp
  have al: "aligned \<lparr>index = [0, 1],
        items = [(''Station'', Object [Str ''Nation'', Str ''La Defense'']),
                 (''Trafic'', Int64 [1200000, 52]),
                 (''Commune'', Object [Str ''paris'', NaN])]\<rparr>"
    by (simp add: aligned_def)
  from load_data_row_count [OF run] al run show ?thesis
    by simp
qed

subsection \<open>When the loader returns a table\<close>

text \<open>
  A normalised header holds no capital letter, so none is one of the labels \<open>Trafic\<close>,
  \<open>Ville\<close>, \<open>Reseau\<close> before the renaming.
\<close>

lemma lower_char_not_upper:
  "\<not> (65 \<le> (of_char (lower_char c) :: nat) \<and> (of_char (lower_char c) :: nat) \<le> 90)"
  by (auto simp: lower_char_def Let_def of_char_of)

lemma normalise_header_not_upper:
  assumes "x \<in> set (normalise_header c)"
  shows "\<not> (65 \<le> (of_char x :: nat) \<and> (of_char x :: nat) \<le> 90)"
proof -
  from assms obtain y where y: "y \<in> set (strip (lower c))"
    and x: "x = (if y = CHR '' '' then CHR ''_'' else y)"
    by (auto simp: normalise_header_def replace_char_def)
  from y have "y \<in> set (lower c)"
    by (auto simp: strip_def dest!: set_dropWhileD)
  then obtain z where "y = lower_char z"
    by (auto simp: lower_def)
  then show ?thesis
    using lower_char_not_upper [of z] by (simp add: x)
qed

lemma normalise_header_not_field:
  "normalise_header c \<noteq> ''Trafic'' \<and> normalise_header c \<noteq> ''Ville''
   \<and> normalise_header c \<noteq> ''Reseau''"
proof -
  have "normalise_header c \<noteq> k"
    if "x \<in> set k" and "65 \<le> (of_char x :: nat) \<and> (of_char x :: nat) \<le> 90" for k x
    using that normalise_header_not_upper [of x c] by auto
  from this [of "CHR ''T''" "''Trafic''"] this [of "CHR ''V''" "''Ville''"]
    this [of "CHR ''R''" "''Reseau''"]
  show ?thesis by simp
qed

lemma final_cols_selected:
  assumes "final_cols cols h = Some k"
  shows "\<exists>keys. (k, keys) \<in> set rules \<and> get_col cols keys = Some h"
proof -
  let ?fs = "filter (\<lambda>(k, keys). get_col cols keys = Some h) rules"
  have "\<forall>(k, keys) \<in> set rules. [] \<notin> set keys"
    using rules_keys_nonempty by blast
  from invert_last [OF this, of Map.empty cols h]
  have eq: "final_cols cols h = (case ?fs of [] \<Rightarrow> None | fs \<Rightarrow> Some (fst (last fs)))"
    by (simp add: final_cols_def mapping_def)
  with assms have ne: "?fs \<noteq> []" and k: "fst (last ?fs) = k"
    by (auto split: list.splits)
  from ne have "last ?fs \<in> set ?fs" by (rule last_in_set)
  then have "last ?fs \<in> set rules" and "get_col cols (snd (last ?fs)) = Some h"
    by auto
  with k show ?thesis
    by (metis prod.collapse)
qed

lemma field_keys_unique:
  "(k, keys) \<in> set rules \<Longrightarrow> (k, keys') \<in> set rules \<Longrightarrow> keys = keys'"
  by (auto simp: rules_def)

lemma filter_at_most_one:
  assumes "distinct (map f xs)"
    and "\<And>x y. x \<in> set xs \<Longrightarrow> y \<in> set xs \<Longrightarrow> P x \<Longrightarrow> P y \<Longrightarrow> f x = f y"
  shows "length (filter P xs) \<le> 1"
  using assms
proof (induction xs)
  case Nil
  then show ?case by simp
next
  case (Cons x xs)
  have IH: "length (filter P xs) \<le> 1"
    using Cons by simp
  show ?case
  proof (cases "P x")
    case False
    with IH show ?thesis by simp
  next
    case True
    have "filter P xs = []"
    proof (rule ccontr)
      assume "filter P xs \<noteq> []"
      then obtain y where y: "y \<in> set xs" "P y"
        by (metis filter_False)
      with True Cons.prems(2) [of x y] have "f x = f y" by simp
      with y(1) Cons.prems(1) show False by force
    qed
    with True show ?thesis by simp
  qed
qed

lemma items_renamed:
  "items (renamed raw)
     = map (\<lambda>(c, s). (case final_cols (map normalise_header (columns raw)) (normalise_header c) of
                        None \<Rightarrow> normalise_header c | Some k \<Rightarrow> k, s)) (items raw)"
  by (simp add: renamed_def rename_def normalise_columns_def columns_def comp_def case_prod_unfold
      cong: option.case_cong)

lemma renamed_field_once:
  assumes d: "distinct (map normalise_header (columns raw))"
    and K: "K = ''Trafic'' \<or> K = ''Ville'' \<or> K = ''Reseau''"
  shows "length (filter (\<lambda>(c, s). c = K) (items (renamed raw))) \<le> 1"
proof -
  let ?hs = "map normalise_header (columns raw)"
  let ?ren = "\<lambda>h. case final_cols ?hs h of None \<Rightarrow> h | Some k \<Rightarrow> k"
  let ?P = "\<lambda>x :: string \<times> series. ?ren (normalise_header (fst x)) = K"
  have sel: "\<exists>keys. (K, keys) \<in> set rules \<and> get_col ?hs keys = Some (normalise_header c)"
    if "?ren (normalise_header c) = K" for c
  proof (cases "final_cols ?hs (normalise_header c)")
    case None
    with that have "normalise_header c = K" by simp
    with K normalise_header_not_field [of c] show ?thesis by auto
  next
    case (Some k)
    with that have "final_cols ?hs (normalise_header c) = Some K" by simp
    then show ?thesis by (rule final_cols_selected)
  qed
  have same: "normalise_header (fst x) = normalise_header (fst y)" if "?P x" "?P y" for x y
  proof -
    from sel [OF that(1)] sel [OF that(2)] obtain keys keys'
      where "(K, keys) \<in> set rules" "get_col ?hs keys = Some (normalise_header (fst x))"
        "(K, keys') \<in> set rules" "get_col ?hs keys' = Some (normalise_header (fst y))"
      by blast
    with field_keys_unique [of K keys keys'] show ?thesis by simp
  qed
  have "distinct (map (\<lambda>x. normalise_header (fst x)) (items raw))"
    using d by (simp add: columns_def comp_def)
  then have "length (filter ?P (items raw)) \<le> 1"
    by (rule filter_at_most_one) (rule same)
  moreover have "length (filter (\<lambda>(c, s). c = K) (items (renamed raw))) = length (filter ?P (items raw))"
    by (simp add: items_renamed filter_map comp_def case_prod_unfold)
  ultimately show ?thesis by simp
qed

lemma getitem_once:
  assumes "key \<in> set (columns df)"
    and "length (filter (\<lambda>(c, s). c = key) (items df)) \<le> 1"
  shows "\<exists>s. getitem df key = Inr s"
proof -
  from assms(1) obtain s where "(key, s) \<in> set (items df)"
    by (auto simp: columns_def)
  then have "(key, s) \<in> set (filter (\<lambda>(c, s). c = key) (items df))" by simp
  then have "filter (\<lambda>(c, s). c = key) (items df) \<noteq> []"
    by (metis empty_iff empty_set)
  with assms(2) obtain x where "filter (\<lambda>(c, s). c = key) (items df) = [x]"
    by (cases "filter (\<lambda>(c, s). c = key) (items df)") auto
  then show ?thesis
    by (cases x) (simp add: getitem_def)
qed

text \<open>
  On a raw table whose normalised headers are pairwise different and whose columns are
  all \<open>object\<close> columns, and with a number reader that never raises, \<open>load_data\<close>
  returns a table.
\<close>

lemma columns_setitem: "columns (setitem df k s) = columns df"
  by (auto simp: columns_def setitem_def comp_def case_prod_unfold)

lemma clean_trafic_result:
  assumes "clean_trafic float_path df = Inr df'"
  shows "df' = df \<or> (\<exists>x. df' = setitem df ''Trafic'' x)"
proof (cases "''Trafic'' \<in> set (columns df)")
  case False
  with assms show ?thesis by (simp add: clean_trafic_absent)
next
  case True
  from clean_trafic_present [OF assms True] show ?thesis by blast
qed

lemma clean_trafic_keeps:
  "clean_trafic float_path df = Inr df' \<Longrightarrow> key \<noteq> ''Trafic'' \<Longrightarrow> getitem df' key = getitem df key"
  using clean_trafic_result [of float_path df df'] by (auto simp: getitem_setitem_other)

lemma clean_trafic_columns: "clean_trafic float_path df = Inr df' \<Longrightarrow> columns df' = columns df"
  using clean_trafic_result [of float_path df df'] by (auto simp: columns_setitem)

lemma clean_ville_columns: "clean_ville df = Inr df' \<Longrightarrow> columns df' = columns df"
  using clean_ville_result [of df df'] by (auto simp: columns_setitem)

lemma to_numeric_no_raise:
  "\<forall>col t. float_path col t \<noteq> Raises \<Longrightarrow> to_numeric float_path col t \<noteq> Raises"
  by (simp add: to_numeric_def split: option.split)

lemma clean_trafic_returns:
  assumes "''Trafic'' \<in> set (columns df) \<Longrightarrow> \<exists>s. getitem df ''Trafic'' = Inr s"
    and "\<forall>col t. float_path col t \<noteq> Raises"
  shows "\<exists>df'. clean_trafic float_path df = Inr df'"
proof (cases "''Trafic'' \<in> set (columns df)")
  case False
  then show ?thesis by (simp add: clean_trafic_absent)
next
  case True
  with assms(1) obtain s where s: "getitem df ''Trafic'' = Inr s" by blast
  have nr: "to_numeric float_path col t \<noteq> Raises" "Raises \<noteq> to_numeric float_path col t"
    for col t
    using to_numeric_no_raise [OF assms(2), of col t] by auto
  from True s show ?thesis
    unfolding clean_trafic_def Let_def by (auto simp: nr)
qed

lemma str_apply_fillna:
  "str_apply f (fillna d (Object os))
     = Inr (Object (map (\<lambda>v. case v of NaN \<Rightarrow> Str (f d) | Str s \<Rightarrow> Str (f s)) os))"
  by (simp add: comp_def) (auto split: obj.split)

lemma clean_ville_returns:
  assumes "''Ville'' \<in> set (columns df) \<Longrightarrow> \<exists>os. getitem df ''Ville'' = Inr (Object os)"
  shows "\<exists>df'. clean_ville df = Inr df'"
proof (cases "''Ville'' \<in> set (columns df)")
  case False
  then show ?thesis by (simp add: clean_ville_def)
next
  case True
  with assms obtain os where "getitem df ''Ville'' = Inr (Object os)" by blast
  with True show ?thesis
    unfolding clean_ville_def by (simp only: str_apply_fillna) simp
qed

lemma clean_reseau_returns:
  assumes "''Reseau'' \<in> set (columns df) \<Longrightarrow> \<exists>os. getitem df ''Reseau'' = Inr (Object os)"
  shows "\<exists>df'. clean_reseau df = Inr df'"
proof (cases "''Reseau'' \<in> set (columns df)")
  case False
  then show ?thesis by (simp add: clean_reseau_def)
next
  case True
  with assms obtain os where "getitem df ''Reseau'' = Inr (Object os)" by blast
  with True show ?thesis
    unfolding clean_reseau_def by (simp only: str_apply_fillna) simp
qed

lemma load_data_renamed:
  "load_data float_path (Readable raw) = clean_fields float_path (renamed raw)"
  by (simp add: load_data_def renamed_def Let_def)

lemma renamed_text_columns:
  assumes "\<forall>(c, s) \<in> set (items raw). \<exists>os. s = Object os"
    and "getitem (renamed raw) key = Inr s"
  shows "\<exists>os. s = Object os"
proof -
  from getitem_member [OF assms(2)] have "s \<in> snd ` set (items (renamed raw))"
    by force
  then have "s \<in> snd ` set (items raw)"
    by (force simp: items_renamed)
  with assms(1) show ?thesis by auto
qed

lemma load_data_returns:
  assumes d: "distinct (map normalise_header (columns raw))"
    and cells: "\<forall>(c, s) \<in> set (items raw). \<exists>os. s = Object os"
    and fp: "\<forall>col t. float_path col t \<noteq> Raises"
  shows "\<exists>df. load_data float_path (Readable raw) = Inr df"
proof -
  let ?df0 = "renamed raw"
  have once: "\<exists>os. getitem ?df0 K = Inr (Object os)"
    if "K \<in> set (columns ?df0)" and "K = ''Trafic'' \<or> K = ''Ville'' \<or> K = ''Reseau''" for K
  proof -
    from getitem_once [OF that(1) renamed_field_once [OF d that(2)]]
    obtain s where s: "getitem ?df0 K = Inr s" by blast
    from renamed_text_columns [OF cells s] s show ?thesis by blast
  qed
  have "\<exists>df1. clean_trafic float_path ?df0 = Inr df1"
    using once [of "''Trafic''"] by (intro clean_trafic_returns fp) auto
  then obtain df1 where t: "clean_trafic float_path ?df0 = Inr df1" by blast
  have "\<exists>df2. clean_ville df1 = Inr df2"
    using once [of "''Ville''"] clean_trafic_columns [OF t] clean_trafic_keeps [OF t, of "''Ville''"]
    by (intro clean_ville_returns) auto
  then obtain df2 where v: "clean_ville df1 = Inr df2" by blast
  have "\<exists>df. clean_reseau df2 = Inr df"
    using once [of "''Reseau''"] clean_trafic_columns [OF t] clean_ville_columns [OF v]
      clean_trafic_keeps [OF t, of "''Reseau''"] clean_ville_keeps [OF v, of "''Reseau''"]
    by (intro clean_reseau_returns) auto
  then obtain df where r: "clean_reseau df2 = Inr df" by blast
  from t v r have "clean_fields float_path ?df0 = Inr df"
    by (simp add: clean_fields_def)
  then show ?thesis
    by (auto simp: load_data_renamed)
qed

text \<open>After the cleaning the cells of \<open>Ville\<close> and of \<open>Reseau\<close> are strings.\<close>

lemma clean_ville_present:
  assumes "clean_ville df = Inr df'" and "''Ville'' \<in> set (columns df)"
  shows "\<exists>s s'. getitem df ''Ville'' = Inr s
     \<and> str_apply title (fillna ''Inconnue'' s) = Inr s' \<and> df' = setitem df ''Ville'' s'"
proof (cases "getitem df ''Ville''")
  case (Inl e)
  with assms show ?thesis
    unfolding clean_ville_def by simp
next
  case (Inr s)
  with assms show ?thesis
    unfolding clean_ville_def
    by (cases "str_apply title (fillna ''Inconnue'' s)") simp_all
qed

lemma clean_reseau_present:
  assumes "clean_reseau df = Inr df'" and "''Reseau'' \<in> set (columns df)"
  shows "\<exists>s s'. getitem df ''Reseau'' = Inr s
     \<and> str_apply (str_replace ''Metro'' (''M'' @ [e_acute] @ ''tro'')) (fillna ''Autre'' s) = Inr s'
     \<and> df' = setitem df ''Reseau'' s'"
proof (cases "getitem df ''Reseau''")
  case (Inl e)
  with assms show ?thesis
    unfolding clean_reseau_def by simp
next
  case (Inr s)
  with assms show ?thesis
    unfolding clean_reseau_def
    by (cases "str_apply (str_replace ''Metro'' (''M'' @ [e_acute] @ ''tro'')) (fillna ''Autre'' s)")
      simp_all
qed

lemma str_apply_fillna_strings:
  "str_apply f (fillna d s) = Inr s' \<Longrightarrow> \<exists>os. s' = Object os \<and> NaN \<notin> set os"
  by (cases s) (auto split: obj.splits)

lemma clean_ville_strings:
  assumes "clean_ville df = Inr df'" and "''Ville'' \<in> set (columns df)"
  shows "\<exists>os. getitem df' ''Ville'' = Inr (Object os) \<and> NaN \<notin> set os"
proof -
  from clean_ville_present [OF assms] obtain s s'
    where s: "getitem df ''Ville'' = Inr s"
      and s': "str_apply title (fillna ''Inconnue'' s) = Inr s'"
      and df': "df' = setitem df ''Ville'' s'"
    by blast
  have "getitem df' ''Ville'' = Inr s'"
    unfolding df' using s by (rule getitem_setitem_same)
  with str_apply_fillna_strings [OF s'] show ?thesis by blast
qed

lemma clean_reseau_strings:
  assumes "clean_reseau df = Inr df'" and "''Reseau'' \<in> set (columns df)"
  shows "\<exists>os. getitem df' ''Reseau'' = Inr (Object os) \<and> NaN \<notin> set os"
proof -
  from clean_reseau_present [OF assms] obtain s s'
    where s: "getitem df ''Reseau'' = Inr s"
      and s': "str_apply (str_replace ''Metro'' (''M'' @ [e_acute] @ ''tro'')) (fillna ''Autre'' s)
                 = Inr s'"
      and df': "df' = setitem df ''Reseau'' s'"
    by blast
  have "getitem df' ''Reseau'' = Inr s'"
    unfolding df' using s by (rule getitem_setitem_same)
  with str_apply_fillna_strings [OF s'] show ?thesis by blast
qed

lemma clean_fields_strings:
  assumes "clean_fields float_path df = Inr df'"
  shows "(''Ville'' \<in> set (columns df) \<longrightarrow>
           (\<exists>os. getitem df' ''Ville'' = Inr (Object os) \<and> NaN \<notin> set os))
       \<and> (''Reseau'' \<in> set (columns df) \<longrightarrow>
           (\<exists>os. getitem df' ''Reseau'' = Inr (Object os) \<and> NaN \<notin> set os))"
proof -
  from clean_fields_steps [OF assms] obtain df1 df2
    where t: "clean_trafic float_path df = Inr df1"
      and v: "clean_ville df1 = Inr df2" and r: "clean_reseau df2 = Inr df'"
    by blast
  have c1: "columns df1 = columns df" using t by (rule clean_trafic_columns)
  have c2: "columns df2 = columns df1" using v by (rule clean_ville_columns)
  show ?thesis
    using clean_ville_strings [OF v] clean_reseau_strings [OF r]
      clean_reseau_keeps [OF r, of "''Ville''"] c1 c2
    by simp
qed

section \<open>The filter stage\<close>

lemma filter_stage_members:
  "r \<in> set (filter_stage sel_res sel_city df) \<Longrightarrow>
     Reseau r \<in> set sel_res \<and> (sel_city \<noteq> [] \<longrightarrow> Ville r \<in> set sel_city)"
  by (simp add: filter_stage_def Let_def split: if_splits)

lemma filter_stage_subseq: "subseq (filter_stage sel_res sel_city df) df"
  by (simp add: filter_stage_def Let_def)

text \<open>
  Claim C5. Every row of the filtered view has its \<open>Reseau\<close> in the selected networks
  and, when some city is selected, its \<open>Ville\<close> in the selected cities; the filtered view
  is a subsequence of the table: the rows kept are rows of the table, unchanged and in
  the table's order.
\<close>

theorem filter_stage_correct:
  "(\<forall>r \<in> set (filter_stage sel_res sel_city df).
      Reseau r \<in> set sel_res \<and> (sel_city \<noteq> [] \<longrightarrow> Ville r \<in> set sel_city))
   \<and> subseq (filter_stage sel_res sel_city df) df"
  using filter_stage_members filter_stage_subseq by blast

theorem filter_stage_correct_witness:
  "filter_stage [''RER''] [''Paris'']
     [\<lparr>label = 0, Reseau = ''RER'', Station = Str ''Nation'', Trafic = 5, Ville = ''Paris''\<rparr>,
      \<lparr>label = 1, Reseau = ''Tramway'', Station = Str ''T3'', Trafic = 7, Ville = ''Paris''\<rparr>,
      \<lparr>label = 2, Reseau = ''RER'', Station = NaN, Trafic = 7, Ville = ''Massy''\<rparr>]
   = [\<lparr>label = 0, Reseau = ''RER'', Station = Str ''Nation'', Trafic = 5, Ville = ''Paris''\<rparr>]
   \<and> [''Paris''] \<noteq> []
   \<and> Reseau \<lparr>label = 0, Reseau = ''RER'', Station = Str ''Nation'', Trafic = 5, Ville = ''Paris''\<rparr>
       \<in> set [''RER'']
   \<and> Ville \<lparr>label = 0, Reseau = ''RER'', Station = Str ''Nation'', Trafic = 5, Ville = ''Paris''\<rparr>
       \<in> set [''Paris'']
   \<and> subseq
     [\<lparr>label = 0, Reseau = ''RER'', Station = Str ''Nation'', Trafic = 5, Ville = ''Paris''\<rparr>]
     [\<lparr>label = 0, Reseau = ''RER'', Station = Str ''Nation'', Trafic = 5, Ville = ''Paris''\<rparr>,
      \<lparr>label = 1, Reseau = ''Tramway'', Station = Str ''T3'', Trafic = 7, Ville = ''Paris''\<rparr>,
      \<lparr>label = 2, Reseau = ''RER'', Station = NaN, Trafic = 7, Ville = ''Massy''\<rparr>]"
proof -
  have out: "filter_stage [''RER''] [''Paris'']
     [\<lparr>label = 0, Reseau = ''RER'', Station = Str ''Nation'', Trafic = 5, Ville = ''Paris''\<rparr>,
      \<lparr>label = 1, Reseau = ''Tramway'', Station = Str ''T3'', Trafic = 7, Ville = ''Paris''\<rparr>,
      \<lparr>label = 2, Reseau = ''RER'', Station = NaN, Trafic = 7, Ville = ''Massy''\<rparr>]
   = [\<lparr>label = 0, Reseau = ''RER'', Station = Str ''Nation'', Trafic = 5, Ville = ''Paris''\<rparr>]"
    by (simp add: filter_stage_def)
  show ?thesis
    using filter_stage_correct [of "[''RER'']" "[''Paris'']"
     "[\<lparr>label = 0, Reseau = ''RER'', Station = Str ''Nation'', Trafic = 5, Ville = ''Paris''\<rparr>,
      \<lparr>label = 1, Reseau = ''Tramway'', Station = Str ''T3'', Trafic = 7, Ville = ''Paris''\<rparr>,
      \<lparr>label = 2, Reseau = ''RER'', Station = NaN, Trafic = 7, Ville = ''Massy''\<rparr>]"]
    unfolding out by simp
qed

section \<open>The rows behind the charts\<close>

lemma stable_descending_sorts: "sorts_descending stable_descending"
proof -
  have "sorted_wrt (\<lambda>a b. Trafic b \<le> Trafic a) (stable_descending df)" for df
  proof -
    have "sorted (map (\<lambda>r. - Trafic r) (sort_key (\<lambda>r. - Trafic r) df))"
      by (rule sorted_sort_key)
    then show ?thesis
      by (simp add: stable_descending_def sorted_wrt_map)
  qed
  then show ?thesis
    by (simp add: sorts_descending_def stable_descending_def)
qed

lemma head_of_descending:
  assumes perm: "mset s = mset df"
    and desc: "sorted_wrt (\<lambda>a b. Trafic b \<le> Trafic a) s"
  shows "length (take n s) = min n (length df)
    \<and> mset (take n s) \<subseteq># mset df
    \<and> (\<forall>r \<in> set (take n s). \<forall>r' \<in># mset df - mset (take n s). Trafic r' \<le> Trafic r)"
proof -
  have len: "length s = length df"
    using perm by (rule mset_eq_length)
  have split: "mset df = mset (take n s) + mset (drop n s)"
    by (metis perm append_take_drop_id mset_append)
  have rest: "mset df - mset (take n s) = mset (drop n s)"
    by (simp add: split)
  have "sorted_wrt (\<lambda>a b. Trafic b \<le> Trafic a) (take n s @ drop n s)"
    using desc by simp
  then have dom: "\<forall>r \<in> set (take n s). \<forall>r' \<in> set (drop n s). Trafic r' \<le> Trafic r"
    unfolding sorted_wrt_append by blast
  show ?thesis
    using len split dom by (simp add: rest min.commute)
qed


text \<open>
  Claim C8. The sunburst chart is drawn from at most 100 rows of the filtered view: as
  many as the view has up to 100, each a row of the view (with its multiplicity), and
  every row taken has a \<open>Trafic\<close> at least that of every row left out.
\<close>

theorem top_df_highest:
  assumes "sorts_descending sort_values"
  shows "length (top_df sort_values df) \<le> 100
    \<and> length (top_df sort_values df) = min 100 (length df)
    \<and> mset (top_df sort_values df) \<subseteq># mset df
    \<and> (\<forall>r \<in> set (top_df sort_values df).
          \<forall>r' \<in># mset df - mset (top_df sort_values df). Trafic r' \<le> Trafic r)"
proof -
  have "mset (sort_values df) = mset df"
    and "sorted_wrt (\<lambda>a b. Trafic b \<le> Trafic a) (sort_values df)"
    using assms by (simp_all add: sorts_descending_def)
  from head_of_descending [OF this, of 100] show ?thesis
    by (simp add: top_df_def)
qed


theorem top_df_highest_witness:
  "sorts_descending stable_descending
   \<and> top_df stable_descending
       (\<lparr>label = 0, Reseau = ''RER'', Station = NaN, Trafic = 1, Ville = ''Paris''\<rparr>
        # replicate 100 \<lparr>label = 1, Reseau = ''RER'', Station = NaN, Trafic = 7, Ville = ''Paris''\<rparr>)
     = replicate 100 \<lparr>label = 1, Reseau = ''RER'', Station = NaN, Trafic = 7, Ville = ''Paris''\<rparr>
   \<and> length (top_df stable_descending
       (\<lparr>label = 0, Reseau = ''RER'', Station = NaN, Trafic = 1, Ville = ''Paris''\<rparr>
        # replicate 100 \<lparr>label = 1, Reseau = ''RER'', Station = NaN, Trafic = 7, Ville = ''Paris''\<rparr>))
     = 100"
proof -
  have out: "top_df stable_descending
       (\<lparr>label = 0, Reseau = ''RER'', Station = NaN, Trafic = 1, Ville = ''Paris''\<rparr>
        # replicate 100 \<lparr>label = 1, Reseau = ''RER'', Station = NaN, Trafic = 7, Ville = ''Paris''\<rparr>)
     = replicate 100 \<lparr>label = 1, Reseau = ''RER'', Station = NaN, Trafic = 7, Ville = ''Paris''\<rparr>"
    by code_simp
  show ?thesis
    using top_df_highest [OF stable_descending_sorts, of
       "\<lparr>label = 0, Reseau = ''RER'', Station = NaN, Trafic = 1, Ville = ''Paris''\<rparr>
        # replicate 100 \<lparr>label = 1, Reseau = ''RER'', Station = NaN, Trafic = 7, Ville = ''Paris''\<rparr>"]
      stable_descending_sorts out
    by simp
qed

lemma nlargest_head:
  assumes "sorts_descending sort_values"
  shows "\<exists>s. nlargest sort_values n df = take n s \<and> mset s = mset df
     \<and> sorted_wrt (\<lambda>a b. Trafic b \<le> Trafic a) s"
proof (cases "n = 0")
  case True
  then have "nlargest sort_values n df = take n (stable_descending df)"
    by (simp add: nlargest_def)
  then show ?thesis
    using stable_descending_sorts by (auto simp: sorts_descending_def)
next
  case False
  show ?thesis
  proof (cases "length df \<le> n")
    case True
    with False have "nlargest sort_values n df = take n (sort_values df)"
      by (simp add: nlargest_def)
    then show ?thesis
      using assms by (auto simp: sorts_descending_def)
  next
    case False
    with \<open>n \<noteq> 0\<close> have "nlargest sort_values n df = take n (stable_descending df)"
      by (simp add: nlargest_def)
    then show ?thesis
      using stable_descending_sorts by (auto simp: sorts_descending_def)
  qed
qed


text \<open>
  Claim C7. The bar chart is drawn from at most 15 rows of the filtered view: as many as
  the view has up to 15, each a row of the view (with its multiplicity), and every row
  taken has a \<open>Trafic\<close> at least that of every row left out.
\<close>

theorem top_largest:
  assumes "sorts_descending sort_values"
  shows "length (top_rows sort_values df) \<le> 15
    \<and> length (top_rows sort_values df) = min 15 (length df)
    \<and> mset (top_rows sort_values df) \<subseteq># mset df
    \<and> (\<forall>r \<in> set (top_rows sort_values df).
          \<forall>r' \<in># mset df - mset (top_rows sort_values df). Trafic r' \<le> Trafic r)"
proof -
  obtain s where s: "top_rows sort_values df = take 15 s" "mset s = mset df"
      "sorted_wrt (\<lambda>a b. Trafic b \<le> Trafic a) s"
    using nlargest_head [OF assms, of 15 df] by (auto simp: top_rows_def)
  from head_of_descending [OF s(2) s(3), of 15] show ?thesis
    by (simp add: s(1))
qed

theorem top_largest_witness:
  "sorts_descending stable_descending
   \<and> top_rows stable_descending
       (map (\<lambda>t. \<lparr>label = nat t, Reseau = ''RER'', Station = NaN, Trafic = t, Ville = ''Paris''\<rparr>)
          [3, 1, 4, 1, 5, 9, 2, 6, 5, 3, 5, 8, 9, 7, 9, 3, 2])
     = map (\<lambda>t. \<lparr>label = nat t, Reseau = ''RER'', Station = NaN, Trafic = t, Ville = ''Paris''\<rparr>)
          [9, 9, 9, 8, 7, 6, 5, 5, 5, 4, 3, 3, 3, 2, 2]
   \<and> length (top_rows stable_descending
       (map (\<lambda>t. \<lparr>label = nat t, Reseau = ''RER'', Station = NaN, Trafic = t, Ville = ''Paris''\<rparr>)
          [3, 1, 4, 1, 5, 9, 2, 6, 5, 3, 5, 8, 9, 7, 9, 3, 2])) = 15
   \<and> mset (top_rows stable_descending
       (map (\<lambda>t. \<lparr>label = nat t, Reseau = ''RER'', Station = NaN, Trafic = t, Ville = ''Paris''\<rparr>)
          [3, 1, 4, 1, 5, 9, 2, 6, 5, 3, 5, 8, 9, 7, 9, 3, 2]))
     \<subseteq># mset (map (\<lambda>t. \<lparr>label = nat t, Reseau = ''RER'', Station = NaN, Trafic = t, Ville = ''Paris''\<rparr>)
          [3, 1, 4, 1, 5, 9, 2, 6, 5, 3, 5, 8, 9, 7, 9, 3, 2])"
proof -
  have out: "top_rows stable_descending
       (map (\<lambda>t. \<lparr>label = nat t, Reseau = ''RER'', Station = NaN, Trafic = t, Ville = ''Paris''\<rparr>)
          [3, 1, 4, 1, 5, 9, 2, 6, 5, 3, 5, 8, 9, 7, 9, 3, 2])
     = map (\<lambda>t. \<lparr>label = nat t, Reseau = ''RER'', Station = NaN, Trafic = t, Ville = ''Paris''\<rparr>)
          [9, 9, 9, 8, 7, 6, 5, 5, 5, 4, 3, 3, 3, 2, 2]"
    by code_simp
  show ?thesis
    using top_largest [OF stable_descending_sorts, of
       "map (\<lambda>t. \<lparr>label = nat t, Reseau = ''RER'', Station = NaN, Trafic = t, Ville = ''Paris''\<rparr>)
          [3, 1, 4, 1, 5, 9, 2, 6, 5, 3, 5, 8, 9, 7, 9, 3, 2]"] stable_descending_sorts out
    by simp
qed


subsection \<open>Share of the total\<close>

lemma wrap64_add_left: "wrap64 (wrap64 a + b) = wrap64 (a + b)"
  by (simp add: wrap64_def algebra_simps mod_simps)

lemma wrap64_add_right: "wrap64 (a + wrap64 b) = wrap64 (a + b)"
  by (simp add: wrap64_def algebra_simps mod_simps)

lemma foldl_wrap64: "foldl (\<lambda>a x. wrap64 (a + x)) (wrap64 a) xs = wrap64 (a + sum_list xs)"
proof (induction xs arbitrary: a)
  case Nil
  then show ?case by simp
next
  case (Cons x xs)
  have "foldl (\<lambda>a x. wrap64 (a + x)) (wrap64 a) (x # xs)
      = foldl (\<lambda>a x. wrap64 (a + x)) (wrap64 (a + x)) xs"
    by (simp add: wrap64_add_left)
  also have "\<dots> = wrap64 (a + x + sum_list xs)"
    by (rule Cons.IH)
  finally show ?case by (simp add: add.assoc)
qed

lemma sum64_wrap: "sum64 xs = wrap64 (sum_list xs)"
proof -
  have "wrap64 0 = 0" by (simp add: wrap64_def)
  then show ?thesis
    using foldl_wrap64 [of 0 xs] by (simp add: sum64_def)
qed

lemma wrap64_sum_list_wrapped:
  "wrap64 (sum_list (map (\<lambda>k. wrap64 (f k)) ks)) = wrap64 (sum_list (map f ks))"
proof (induction ks)
  case Nil
  then show ?case by simp
next
  case (Cons k ks)
  have "wrap64 (wrap64 (f k) + sum_list (map (\<lambda>k. wrap64 (f k)) ks))
      = wrap64 (f k + sum_list (map (\<lambda>k. wrap64 (f k)) ks))"
    by (rule wrap64_add_left)
  also have "\<dots> = wrap64 (f k + wrap64 (sum_list (map (\<lambda>k. wrap64 (f k)) ks)))"
    by (simp add: wrap64_add_right)
  also have "\<dots> = wrap64 (f k + wrap64 (sum_list (map f ks)))"
    by (simp add: Cons.IH)
  also have "\<dots> = wrap64 (f k + sum_list (map f ks))"
    by (rule wrap64_add_right)
  finally show ?case by simp
qed

lemma sum_list_indicator_absent:
  "a \<notin> set ks \<Longrightarrow> sum_list (map (\<lambda>k. if a = k then (c::int) else 0) ks) = 0"
  by (induction ks) auto

lemma sum_list_indicator:
  "distinct ks \<Longrightarrow> a \<in> set ks \<Longrightarrow> sum_list (map (\<lambda>k. if a = k then (c::int) else 0) ks) = c"
  by (induction ks) (auto simp: sum_list_indicator_absent)

lemma regroup:
  "distinct ks \<Longrightarrow> Reseau ` set df \<subseteq> set ks \<Longrightarrow>
     sum_list (map (\<lambda>k. sum_list (map Trafic (filter (\<lambda>r. Reseau r = k) df))) ks)
       = sum_list (map Trafic df)"
proof (induction df)
  case Nil
  then show ?case by simp
next
  case (Cons r df)
  have "sum_list (map (\<lambda>k. sum_list (map Trafic (filter (\<lambda>r. Reseau r = k) (r # df)))) ks)
      = sum_list (map (\<lambda>k. (if Reseau r = k then Trafic r else 0)
            + sum_list (map Trafic (filter (\<lambda>r. Reseau r = k) df))) ks)"
    by (rule arg_cong [where f = sum_list]) simp
  also have "\<dots> = sum_list (map (\<lambda>k. if Reseau r = k then Trafic r else 0) ks)
            + sum_list (map (\<lambda>k. sum_list (map Trafic (filter (\<lambda>r. Reseau r = k) df))) ks)"
    by (rule sum_list_addf)
  also have "\<dots> = Trafic r + sum_list (map Trafic df)"
    using Cons by (simp add: sum_list_indicator)
  finally show ?case by simp
qed


text \<open>
  Claim C6. The table behind the donut chart has one row for each \<open>Reseau\<close> value of
  the filtered view, no value twice, and its \<open>Trafic\<close> column sums (in \<open>int64\<close>
  arithmetic, as pandas sums) to what the \<open>Trafic\<close> column of the filtered view sums
  to.
\<close>

theorem grp_lossless:
  "sum64 (map snd (grp df)) = sum64 (map Trafic df)
   \<and> distinct (map fst (grp df))
   \<and> set (map fst (grp df)) = Reseau ` set df
   \<and> length (grp df) = card (Reseau ` set df)"
proof -
  let ?ks = "sort (remdups (map Reseau df))"
  have keys: "map fst (grp df) = ?ks"
    by (simp add: grp_def comp_def)
  have "sum64 (map snd (grp df))
      = wrap64 (sum_list (map (\<lambda>k. wrap64 (sum_list (map Trafic (filter (\<lambda>r. Reseau r = k) df)))) ?ks))"
    by (simp add: sum64_wrap grp_def comp_def)
  also have "\<dots> = wrap64 (sum_list (map (\<lambda>k. sum_list (map Trafic (filter (\<lambda>r. Reseau r = k) df))) ?ks))"
    by (rule wrap64_sum_list_wrapped)
  also have "\<dots> = wrap64 (sum_list (map Trafic df))"
    by (simp add: regroup)
  finally have "sum64 (map snd (grp df)) = sum64 (map Trafic df)"
    by (simp add: sum64_wrap)
  moreover have "length (grp df) = card (Reseau ` set df)"
    by (simp add: grp_def card_set [symmetric] length_remdups_card_conv)
  ultimately show ?thesis
    by (simp add: keys)
qed


section \<open>The scalar summaries on an empty view\<close>

text \<open>
  Claim C10. On a filtered view with no row the \<open>Top Station\<close> metric is given the
  placeholder \<open>-\<close>: the guard \<open>not df_viz.empty\<close> keeps \<open>idxmax\<close>, which raises on an
  empty column, from being evaluated, and the four summaries are computed without an
  exception.
\<close>

theorem top_station_empty:
  "top_station [] = Inr (One (Str ''-''))
   \<and> idxmax [] = Inl ValueError
   \<and> summaries [] =
       Inr \<lparr>k1_total = 0, k2_stations = 0, k3_top_s = One (Str ''-''), k4_avg = None\<rparr>"
  by (simp add: top_station_def idxmax_def summaries_def sum64_def mean_def)

end
